theory Spec2Isabelle
  imports Main
begin

section \<open>Values, errors and outcomes\<close>

text \<open>
  Python values that parsers of \<^verbatim>\<open>aoclib/parsing.py\<close> produce: \<^verbatim>\<open>None\<close>, the private
  sentinel \<^verbatim>\<open>Parser.__SKIP\<close>, strings, integers, lists, tuples and dicts (an association
  list from group names to values).  Equality of values is structural.
\<close>

datatype pyval =
    PNone
  | PSkip
  | PStr string
  | PInt int
  | PList "pyval list"
  | PTuple "pyval list"
  | PDict "(string \<times> pyval) list"

text \<open>
  \<^verbatim>\<open>_Tagged\<close> is a \<^verbatim>\<open>NamedTuple\<close> with the fields \<^verbatim>\<open>tag\<close> and \<^verbatim>\<open>result\<close>: a tuple of length
  two (it passes \<^verbatim>\<open>isinstance(_, tuple)\<close> and compares equal to the plain pair).
\<close>

definition Tagged :: "pyval \<Rightarrow> pyval \<Rightarrow> pyval" where
  "Tagged tg result = PTuple [tg, result]"

datatype error = TypeError | AttributeError | ValueError | UserError string

text \<open>
  A call of a Python function either does not return, raises, or returns a value.
  \<open>None\<close> stands for a call that never returns.
\<close>

type_synonym 'a outcome = "(error + 'a) option"

abbreviation Diverges :: "'a outcome" where
  "Diverges \<equiv> None"

abbreviation Raises :: "error \<Rightarrow> 'a outcome" where
  "Raises e \<equiv> Some (Inl e)"

abbreviation Returns :: "'a \<Rightarrow> 'a outcome" where
  "Returns x \<equiv> Some (Inr x)"

text \<open>
  What \<^verbatim>\<open>parse_fn(s, i)\<close> and \<^verbatim>\<open>run(s, i)\<close> return: \<^verbatim>\<open>None\<close> or the pair
  \<^verbatim>\<open>(result, new_i)\<close>.  Positions are Python integers.
\<close>

type_synonym parse_ret = "(pyval \<times> int) option"

type_synonym parse_fn = "string \<Rightarrow> int \<Rightarrow> parse_ret outcome"

type_synonym conversion = "pyval \<Rightarrow> pyval outcome"

section \<open>The Parser class\<close>

text \<open>
  An instance of \<^verbatim>\<open>Parser\<close> holds the four slots \<^verbatim>\<open>_parse_fn\<close>, \<^verbatim>\<open>_conversions\<close>,
  \<^verbatim>\<open>_trim_ws\<close> and \<^verbatim>\<open>_tag\<close>.  An instance of the subclasses \<^verbatim>\<open>_ParserChain\<close> and
  \<^verbatim>\<open>_ParserFirstMatch\<close> is built by \<^verbatim>\<open>_ParserList.__init__\<close> from its \<^verbatim>\<open>_parsers\<close> alone:
  its \<^verbatim>\<open>_parse_fn\<close> is \<^verbatim>\<open>partial(self.do_parse, self._parsers)\<close> and its other slots have
  the defaults \<^verbatim>\<open>()\<close>, \<^verbatim>\<open>False\<close>, \<^verbatim>\<open>None\<close>.  The constructor tells which class the object
  has, which is what \<^verbatim>\<open>isinstance(p, to_flatten)\<close> asks.  A \<^verbatim>\<open>ParserRef\<close> whose target is
  bound is a \<open>Parser\<close> whose \<^verbatim>\<open>_parse_fn\<close> is the bound method \<^verbatim>\<open>run_ref\<close>.
\<close>

datatype parser =
    Parser parse_fn "conversion list" bool pyval
  | ParserChain "parser list"
  | ParserFirstMatch "parser list"

subsection \<open>String primitives of the Python library\<close>

text \<open>
  A character is a code point below 256.  \<^verbatim>\<open>\s\<close> of a \<^verbatim>\<open>str\<close> pattern matches the code
  points 9 to 13, 28 to 32, 133 and 160 in that range.
\<close>

definition is_space :: "char \<Rightarrow> bool" where
  "is_space c = (let n = (of_char c :: nat)
                 in (9 \<le> n \<and> n \<le> 13) \<or> (28 \<le> n \<and> n \<le> 32) \<or> n = 133 \<or> n = 160)"

text \<open>\<^verbatim>\<open>pattern.match(s, pos)\<close> clamps \<^verbatim>\<open>pos\<close> into \<^verbatim>\<open>0 .. len(s)\<close>.\<close>

definition clamp_pos :: "string \<Rightarrow> int \<Rightarrow> nat" where
  "clamp_pos s i = (if i < 0 then 0 else if int (length s) < i then length s else nat i)"

text \<open>\<^verbatim>\<open>__WS_PATT.match(s, i).end()\<close> for \<^verbatim>\<open>__WS_PATT = re.compile(r"\s*")\<close>.\<close>

definition ws_end :: "string \<Rightarrow> int \<Rightarrow> int" where
  "ws_end s i = (let st = clamp_pos s i
                 in int (st + length (takeWhile is_space (drop st s))))"

subsection \<open>Parser.run and Parser.parse\<close>

text \<open>
  The loop over \<^verbatim>\<open>self._conversions\<close> in \<^verbatim>\<open>run\<close>: a conversion that returns the sentinel
  makes the result \<^verbatim>\<open>None\<close> and the loop goes on; one that returns \<^verbatim>\<open>None\<close> fails the parse.
\<close>

fun apply_conversions :: "conversion list \<Rightarrow> pyval \<Rightarrow> pyval option outcome" where
  "apply_conversions [] result = Returns (Some result)"
| "apply_conversions (fn # fns) result =
     (case fn result of
        Diverges \<Rightarrow> Diverges
      | Raises e \<Rightarrow> Raises e
      | Returns r \<Rightarrow>
          if r = PSkip then apply_conversions fns PNone
          else if r = PNone then Returns None
          else apply_conversions fns r)"

text \<open>The body of \<^verbatim>\<open>Parser.run\<close> on the four slots of \<^verbatim>\<open>self\<close>.\<close>

definition run_body :: "parse_fn \<Rightarrow> conversion list \<Rightarrow> bool \<Rightarrow> pyval \<Rightarrow> string \<Rightarrow> int \<Rightarrow> parse_ret outcome" where
  "run_body pfn convs trim tg s i =
     (let i1 = (if trim then ws_end s i else i)
      in case pfn s i1 of
           Diverges \<Rightarrow> Diverges
         | Raises e \<Rightarrow> Raises e
         | Returns None \<Rightarrow> Returns None
         | Returns (Some (result, new_i)) \<Rightarrow>
             (case apply_conversions convs result of
                Diverges \<Rightarrow> Diverges
              | Raises e \<Rightarrow> Raises e
              | Returns None \<Rightarrow> Returns None
              | Returns (Some result1) \<Rightarrow>
                  (let result2 = (if tg \<noteq> PNone then Tagged tg result1 else result1);
                       new_i1 = (if trim then ws_end s new_i else new_i)
                   in Returns (Some (result2, new_i1)))))"

text \<open>\<^verbatim>\<open>_add_result(acc, sub_result)\<close>, returning the extended accumulator.\<close>

definition add_result :: "pyval list \<Rightarrow> pyval \<Rightarrow> pyval list" where
  "add_result acc sub_result =
     (case sub_result of
        PList xs \<Rightarrow> acc @ filter (\<lambda>z. z \<noteq> PNone) xs
      | PNone \<Rightarrow> acc
      | _ \<Rightarrow> acc @ [sub_result])"

text \<open>
  \<^verbatim>\<open>_ParserChain.do_parse\<close>.  The argument is the list of the bound methods \<^verbatim>\<open>p.run\<close> of
  the parsers; \<open>results\<close> and \<open>i\<close> are the loop's variables.
\<close>

fun chain_loop :: "parse_fn list \<Rightarrow> string \<Rightarrow> pyval list \<Rightarrow> int \<Rightarrow> parse_ret outcome" where
  "chain_loop [] s results i = Returns (Some (PList results, i))"
| "chain_loop (prun # pruns) s results i =
     (case prun s i of
        Diverges \<Rightarrow> Diverges
      | Raises e \<Rightarrow> Raises e
      | Returns None \<Rightarrow> Returns None
      | Returns (Some (nxt_result, nxt_i)) \<Rightarrow>
          chain_loop pruns s (add_result results nxt_result) nxt_i)"

definition chain_do_parse :: "parse_fn list \<Rightarrow> parse_fn" where
  "chain_do_parse pruns s i = chain_loop pruns s [] i"

text \<open>\<^verbatim>\<open>_ParserFirstMatch.do_parse\<close>, on the bound methods \<^verbatim>\<open>p.run\<close> as well.\<close>

fun firstmatch_do_parse :: "parse_fn list \<Rightarrow> parse_fn" where
  "firstmatch_do_parse [] s i = Returns None"
| "firstmatch_do_parse (prun # pruns) s i =
     (case prun s i of
        Diverges \<Rightarrow> Diverges
      | Raises e \<Rightarrow> Raises e
      | Returns None \<Rightarrow> firstmatch_do_parse pruns s i
      | Returns (Some parse_ret) \<Rightarrow> Returns (Some parse_ret))"

text \<open>
  \<^verbatim>\<open>Parser.run\<close>.  For the two list classes the slots are those that
  \<^verbatim>\<open>_ParserList.__init__\<close> sets.
\<close>

primrec run :: "parser \<Rightarrow> parse_fn" where
  "run (Parser pfn convs trim tg) = run_body pfn convs trim tg"
| "run (ParserChain parsers) = run_body (chain_do_parse (map run parsers)) [] False PNone"
| "run (ParserFirstMatch parsers) = run_body (firstmatch_do_parse (map run parsers)) [] False PNone"

text \<open>The slots of an instance.\<close>

primrec slot_parse_fn :: "parser \<Rightarrow> parse_fn" where
  "slot_parse_fn (Parser pfn convs trim tg) = pfn"
| "slot_parse_fn (ParserChain parsers) = chain_do_parse (map run parsers)"
| "slot_parse_fn (ParserFirstMatch parsers) = firstmatch_do_parse (map run parsers)"

primrec slot_conversions :: "parser \<Rightarrow> conversion list" where
  "slot_conversions (Parser pfn convs trim tg) = convs"
| "slot_conversions (ParserChain parsers) = []"
| "slot_conversions (ParserFirstMatch parsers) = []"

primrec slot_trim_ws :: "parser \<Rightarrow> bool" where
  "slot_trim_ws (Parser pfn convs trim tg) = trim"
| "slot_trim_ws (ParserChain parsers) = False"
| "slot_trim_ws (ParserFirstMatch parsers) = False"

primrec slot_tag :: "parser \<Rightarrow> pyval" where
  "slot_tag (Parser pfn convs trim tg) = tg"
| "slot_tag (ParserChain parsers) = PNone"
| "slot_tag (ParserFirstMatch parsers) = PNone"

text \<open>\<^verbatim>\<open>Parser.parse\<close>; \<^verbatim>\<open>len(s)\<close> is the number of characters.\<close>

definition parse :: "parser \<Rightarrow> string \<Rightarrow> pyval outcome" where
  "parse self s =
     (case run self s 0 of
        Diverges \<Rightarrow> Diverges
      | Raises e \<Rightarrow> Raises e
      | Returns None \<Rightarrow> Returns PNone
      | Returns (Some (result, new_i)) \<Rightarrow>
          if new_i \<noteq> int (length s) then Returns PNone else Returns result)"

subsection \<open>Constructing and copying parsers\<close>

text \<open>
  The keyword arguments \<^verbatim>\<open>**kwargs\<close> of \<^verbatim>\<open>Parser.__init__\<close> and \<^verbatim>\<open>_copy_with\<close>: each of
  the keys \<^verbatim>\<open>conversions\<close>, \<^verbatim>\<open>trim_ws\<close>, \<^verbatim>\<open>tag\<close> is absent or present with a value
  (\<^verbatim>\<open>tag=None\<close> is present, with the value \<^verbatim>\<open>None\<close>).
\<close>

record kwargs =
  kw_conversions :: "conversion list option"
  kw_trim_ws :: "bool option"
  kw_tag :: "pyval option"

definition no_kwargs :: kwargs where
  "no_kwargs = \<lparr>kw_conversions = None, kw_trim_ws = None, kw_tag = None\<rparr>"

text \<open>\<^verbatim>\<open>Parser.__init__\<close>.\<close>

definition Parser_init :: "parse_fn \<Rightarrow> kwargs \<Rightarrow> parser" where
  "Parser_init pfn kw =
     Parser pfn
       (case kw_conversions kw of None \<Rightarrow> [] | Some convs \<Rightarrow> convs)
       (case kw_trim_ws kw of None \<Rightarrow> False | Some trim \<Rightarrow> trim)
       (case kw_tag kw of None \<Rightarrow> PNone | Some tg \<Rightarrow> tg)"

text \<open>\<^verbatim>\<open>Parser._copy_with\<close>: always a plain \<^verbatim>\<open>Parser\<close>, never \<^verbatim>\<open>type(self)\<close>.\<close>

definition copy_with :: "parser \<Rightarrow> kwargs \<Rightarrow> parser" where
  "copy_with self kw =
     (let kw1 = (if slot_conversions self \<noteq> []
                 then kw\<lparr>kw_conversions :=
                        Some (slot_conversions self @
                              (case kw_conversions kw of None \<Rightarrow> [] | Some new_convs \<Rightarrow> new_convs))\<rparr>
                 else kw);
          kw2 = (case kw_trim_ws kw1 of
                   None \<Rightarrow> kw1\<lparr>kw_trim_ws := Some (slot_trim_ws self)\<rparr>
                 | Some _ \<Rightarrow> kw1);
          kw3 = (case kw_tag kw2 of
                   None \<Rightarrow> kw2\<lparr>kw_tag := Some (slot_tag self)\<rparr>
                 | Some _ \<Rightarrow> kw2)
      in Parser_init (slot_parse_fn self) kw3)"

subsection \<open>The pipeline operations\<close>

definition conv :: "parser \<Rightarrow> conversion list \<Rightarrow> parser" where
  "conv self fns =
     (if fns = [] then self
      else copy_with self (no_kwargs\<lparr>kw_conversions := Some fns\<rparr>))"

text \<open>
  The loop of \<^verbatim>\<open>elem_converter\<close> over \<^verbatim>\<open>enumerate(fns)\<close> on a list: it stops at the end of
  either list, and a \<^verbatim>\<open>None\<close> function leaves its element as it is.  The source stores
  each converted element into the list it was given (\<^verbatim>\<open>result[i] = fn(result[i])\<close>) and
  returns that list; a tuple is copied into a new list first.  The functions below give
  the value that list has in the end.  Values have no identity here and conversions are
  functions from values to values, so a list object that is handed out again on a later
  run (as the function of \<^verbatim>\<open>const\<close> hands out its \<^verbatim>\<open>val\<close>) is taken with the value it
  was created with; the lists that \<^verbatim>\<open>_ParserChain.do_parse\<close> and \<^verbatim>\<open>star\<close> return are made
  anew by every run.
\<close>

fun zip_convert :: "conversion option list \<Rightarrow> pyval list \<Rightarrow> pyval list outcome" where
  "zip_convert [] result = Returns result"
| "zip_convert (fn # fns) [] = Returns []"
| "zip_convert (None # fns) (x # result) =
     (case zip_convert fns result of
        Diverges \<Rightarrow> Diverges
      | Raises e \<Rightarrow> Raises e
      | Returns ys \<Rightarrow> Returns (x # ys))"
| "zip_convert (Some fn # fns) (x # result) =
     (case fn x of
        Diverges \<Rightarrow> Diverges
      | Raises e \<Rightarrow> Raises e
      | Returns y \<Rightarrow>
          (case zip_convert fns result of
             Diverges \<Rightarrow> Diverges
           | Raises e \<Rightarrow> Raises e
           | Returns ys \<Rightarrow> Returns (y # ys)))"

definition elem_converter :: "conversion option list \<Rightarrow> conversion" where
  "elem_converter fns result =
     (case result of
        PTuple xs \<Rightarrow>
          (case zip_convert fns xs of
             Diverges \<Rightarrow> Diverges
           | Raises e \<Rightarrow> Raises e
           | Returns ys \<Rightarrow> Returns (PTuple ys))
      | PList xs \<Rightarrow>
          (case zip_convert fns xs of
             Diverges \<Rightarrow> Diverges
           | Raises e \<Rightarrow> Raises e
           | Returns ys \<Rightarrow> Returns (PList ys))
      | _ \<Rightarrow> Raises TypeError)"

definition zipconv :: "parser \<Rightarrow> conversion option list \<Rightarrow> parser" where
  "zipconv self fns =
     (if list_all Option.is_none fns then self
      else copy_with self (no_kwargs\<lparr>kw_conversions := Some [elem_converter fns]\<rparr>))"

definition const :: "parser \<Rightarrow> pyval \<Rightarrow> parser" where
  "const self val = copy_with self (no_kwargs\<lparr>kw_conversions := Some [\<lambda>_. Returns val]\<rparr>)"

definition skip :: "parser \<Rightarrow> parser" where
  "skip self =
     copy_with self (no_kwargs\<lparr>kw_conversions := Some [\<lambda>_. Returns PSkip], kw_tag := Some PNone\<rparr>)"

definition trim_ws :: "parser \<Rightarrow> bool \<Rightarrow> parser" where
  "trim_ws self enable =
     (if slot_trim_ws self = enable then self
      else copy_with self (no_kwargs\<lparr>kw_trim_ws := Some enable\<rparr>))"

definition tag :: "parser \<Rightarrow> pyval \<Rightarrow> parser" where
  "tag self tg =
     (if slot_tag self = tg then self
      else copy_with self (no_kwargs\<lparr>kw_tag := Some tg\<rparr>))"

subsection \<open>Chaining and first-match\<close>

datatype list_class = Chain | FirstMatch

text \<open>\<^verbatim>\<open>isinstance(p, to_flatten)\<close> and the slot \<^verbatim>\<open>p._parsers\<close>.\<close>

fun isinstance :: "parser \<Rightarrow> list_class \<Rightarrow> bool" where
  "isinstance (ParserChain parsers) Chain = True"
| "isinstance (ParserFirstMatch parsers) FirstMatch = True"
| "isinstance p to_flatten = False"

fun slot_parsers :: "parser \<Rightarrow> parser list" where
  "slot_parsers (ParserChain parsers) = parsers"
| "slot_parsers (ParserFirstMatch parsers) = parsers"
| "slot_parsers (Parser pfn convs trim tg) = []"

text \<open>The loop of \<^verbatim>\<open>_ParserList.__init__\<close> that accumulates \<^verbatim>\<open>flattened\<close>.\<close>

fun flatten :: "list_class \<Rightarrow> parser list \<Rightarrow> parser list" where
  "flatten to_flatten [] = []"
| "flatten to_flatten (p # parsers) =
     (if isinstance p to_flatten then slot_parsers p else [p]) @ flatten to_flatten parsers"

definition ParserList_init :: "list_class \<Rightarrow> parser list \<Rightarrow> parser" where
  "ParserList_init cls parsers =
     (case cls of
        Chain \<Rightarrow> ParserChain (flatten Chain parsers)
      | FirstMatch \<Rightarrow> ParserFirstMatch (flatten FirstMatch parsers))"

text \<open>\<^verbatim>\<open>Parser.__add__\<close> and \<^verbatim>\<open>Parser.__or__\<close>.\<close>

definition parser_add :: "parser \<Rightarrow> parser \<Rightarrow> parser" where
  "parser_add self other = ParserList_init Chain [self, other]"

definition parser_or :: "parser \<Rightarrow> parser \<Rightarrow> parser" where
  "parser_or self other = ParserList_init FirstMatch [self, other]"

section \<open>Atomic parsers\<close>

text \<open>
  \<^verbatim>\<open>s.startswith(z, i)\<close>: a negative start counts from the end (and stops at 0); a start
  after the end matches nothing, not even the empty string.
\<close>

definition startswith :: "string \<Rightarrow> string \<Rightarrow> int \<Rightarrow> bool" where
  "startswith s z i =
     (let n = int (length s);
          st = (if i < 0 then max 0 (i + n) else i)
      in st + int (length z) \<le> n \<and> take (length z) (drop (nat st) s) = z)"

definition ex :: "string \<Rightarrow> parser" where
  "ex z =
     Parser_init
       (\<lambda>s i. if \<not> startswith s z i then Returns None
              else Returns (Some (PNone, i + int (length z))))
       (no_kwargs\<lparr>kw_trim_ws := Some True\<rparr>)"

text \<open>
  The match object of the library \<^verbatim>\<open>re\<close>: the capture groups of the pattern in order,
  each with its name when it has one and the text it captured (\<^verbatim>\<open>None\<close> when the group
  took no part in the match), the matched text \<^verbatim>\<open>group(0)\<close>, and \<^verbatim>\<open>end()\<close>.  A compiled
  pattern is its method \<^verbatim>\<open>match(s, pos)\<close>.
\<close>

record re_match =
  m_captures :: "(string option \<times> pyval) list"
  m_group0 :: string
  m_end :: int

type_synonym pattern = "string \<Rightarrow> int \<Rightarrow> re_match option"

text \<open>\<^verbatim>\<open>match.groupdict()\<close>: the named groups.  \<^verbatim>\<open>match.groups()\<close>: all groups.\<close>

fun groupdict_of :: "(string option \<times> pyval) list \<Rightarrow> (string \<times> pyval) list" where
  "groupdict_of [] = []"
| "groupdict_of ((None, v) # caps) = groupdict_of caps"
| "groupdict_of ((Some name, v) # caps) = (name, v) # groupdict_of caps"

definition groupdict :: "re_match \<Rightarrow> (string \<times> pyval) list" where
  "groupdict m = groupdict_of (m_captures m)"

definition groups :: "re_match \<Rightarrow> pyval list" where
  "groups m = map snd (m_captures m)"

text \<open>
  \<^verbatim>\<open>regex\<close>, on the compiled pattern \<^verbatim>\<open>patt = re.compile(z)\<close>.  In the branch for one
  group, \<^verbatim>\<open>match.group(1)\<close> is the only element of \<^verbatim>\<open>match.groups()\<close>.
\<close>

definition regex_parse_fn :: "pattern \<Rightarrow> parse_fn" where
  "regex_parse_fn patt s i =
     (case patt s i of
        None \<Rightarrow> Returns None
      | Some m \<Rightarrow>
          if groupdict m \<noteq> [] then Returns (Some (PDict (groupdict m), m_end m))
          else if length (groups m) > 1 then Returns (Some (PTuple (groups m), m_end m))
          else if length (groups m) = 1 then Returns (Some (hd (groups m), m_end m))
          else Returns (Some (PStr (m_group0 m), m_end m)))"

definition regex :: "pattern \<Rightarrow> parser" where
  "regex patt = Parser_init (regex_parse_fn patt) (no_kwargs\<lparr>kw_trim_ws := Some True\<rparr>)"

text \<open>The slice \<^verbatim>\<open>s[lo:hi]\<close>.\<close>

definition slice_index :: "string \<Rightarrow> int \<Rightarrow> nat" where
  "slice_index s k =
     (let n = int (length s)
      in nat (if k < 0 then max 0 (k + n) else min k n))"

definition py_slice :: "string \<Rightarrow> int \<Rightarrow> int \<Rightarrow> string" where
  "py_slice s lo hi = take (slice_index s hi - slice_index s lo) (drop (slice_index s lo) s)"

definition chomp :: "int \<Rightarrow> parser" where
  "chomp n =
     Parser_init
       (\<lambda>s i. if \<not> (i + n \<le> int (length s)) then Returns None
              else Returns (Some (PStr (py_slice s i (i + n)), i + n)))
       no_kwargs"

section \<open>Repetition and separated lists\<close>

text \<open>
  The \<^verbatim>\<open>while\<close> loop of \<^verbatim>\<open>star\<close> on its variables \<^verbatim>\<open>rep_count\<close>, \<^verbatim>\<open>results\<close> and \<^verbatim>\<open>i\<close>;
  it returns them as they are when the loop is left.  The loop need not end.
\<close>

partial_function (option) star_loop ::
  "parser \<Rightarrow> int option \<Rightarrow> string \<Rightarrow> int \<Rightarrow> pyval list \<Rightarrow> int \<Rightarrow> (int \<times> pyval list \<times> int) outcome" where
  "star_loop p at_most s rep_count results i =
     (if (case at_most of None \<Rightarrow> True | Some m \<Rightarrow> rep_count < m)
      then (case run p s i of
              Diverges \<Rightarrow> Diverges
            | Raises e \<Rightarrow> Raises e
            | Returns None \<Rightarrow> Returns (rep_count, results, i)
            | Returns (Some (nxt_result, nxt_i)) \<Rightarrow>
                star_loop p at_most s (rep_count + 1) (add_result results nxt_result) nxt_i)
      else Returns (rep_count, results, i))"

declare star_loop.simps [code]

definition star_parse_fn :: "parser \<Rightarrow> int \<Rightarrow> int option \<Rightarrow> parse_fn" where
  "star_parse_fn p at_least at_most s i =
     (case star_loop p at_most s 0 [] i of
        Diverges \<Rightarrow> Diverges
      | Raises e \<Rightarrow> Raises e
      | Returns (rep_count, results, i1) \<Rightarrow>
          if rep_count < at_least then Returns None
          else Returns (Some (PList results, i1)))"

definition star :: "parser \<Rightarrow> int \<Rightarrow> int option \<Rightarrow> parser" where
  "star p at_least at_most = Parser_init (star_parse_fn p at_least at_most) no_kwargs"

text \<open>The argument \<^verbatim>\<open>sep\<close> of \<^verbatim>\<open>seplist\<close>: a string, a parser, or a value of another type.\<close>

datatype sep_arg = SepStr string | SepParser parser | SepOther pyval

definition seplist :: "parser \<Rightarrow> sep_arg \<Rightarrow> error + parser" where
  "seplist p sep =
     (case sep of
        SepOther v \<Rightarrow> Inl TypeError
      | SepStr z \<Rightarrow> Inr (parser_add p (star (parser_add (skip (ex z)) p) 0 None))
      | SepParser q \<Rightarrow> Inr (parser_add p (star (parser_add (skip q) p) 0 None)))"

section \<open>Forward references\<close>

text \<open>
  A \<^verbatim>\<open>ParserRef\<close> of \<^verbatim>\<open>recursive\<close>: the slot \<^verbatim>\<open>_ref\<close> is unset when the object is made.
  \<^verbatim>\<open>set_ref\<close> assigns the slot and returns; \<^verbatim>\<open>run_ref\<close> reads it, and reading an unset slot
  raises \<^verbatim>\<open>AttributeError\<close>.
\<close>

datatype parser_ref = ParserRef (slot_ref: "parser option")

definition ParserRef_init :: parser_ref where
  "ParserRef_init = ParserRef None"

definition set_ref :: "parser_ref \<Rightarrow> parser \<Rightarrow> parser_ref outcome" where
  "set_ref self p = Returns (ParserRef (Some p))"

definition run_ref :: "parser_ref \<Rightarrow> parse_fn" where
  "run_ref self s i =
     (case slot_ref self of
        None \<Rightarrow> Raises AttributeError
      | Some p \<Rightarrow> run p s i)"

section \<open>Objects and identity\<close>

text \<open>
  The methods above compute the value of the object a method returns.  Which object that
  is (\<^verbatim>\<open>self\<close> or a new one) is told by a store of the \<^verbatim>\<open>Parser\<close> objects made so far: a
  reference is an index into it, and \<^verbatim>\<open>Parser(...)\<close> puts a new object at the end.  No
  method of the class assigns to a slot of an existing object.
\<close>

type_synonym store = "parser list"

definition new_object :: "store \<Rightarrow> parser \<Rightarrow> store \<times> nat" where
  "new_object h v = (h @ [v], length h)"

definition copy_with_obj :: "store \<Rightarrow> nat \<Rightarrow> kwargs \<Rightarrow> store \<times> nat" where
  "copy_with_obj h self kw = new_object h (copy_with (h ! self) kw)"

definition conv_obj :: "store \<Rightarrow> nat \<Rightarrow> conversion list \<Rightarrow> store \<times> nat" where
  "conv_obj h self fns =
     (if fns = [] then (h, self)
      else copy_with_obj h self (no_kwargs\<lparr>kw_conversions := Some fns\<rparr>))"

definition zipconv_obj :: "store \<Rightarrow> nat \<Rightarrow> conversion option list \<Rightarrow> store \<times> nat" where
  "zipconv_obj h self fns =
     (if list_all Option.is_none fns then (h, self)
      else copy_with_obj h self (no_kwargs\<lparr>kw_conversions := Some [elem_converter fns]\<rparr>))"

definition const_obj :: "store \<Rightarrow> nat \<Rightarrow> pyval \<Rightarrow> store \<times> nat" where
  "const_obj h self val =
     copy_with_obj h self (no_kwargs\<lparr>kw_conversions := Some [\<lambda>_. Returns val]\<rparr>)"

definition skip_obj :: "store \<Rightarrow> nat \<Rightarrow> store \<times> nat" where
  "skip_obj h self =
     copy_with_obj h self
       (no_kwargs\<lparr>kw_conversions := Some [\<lambda>_. Returns PSkip], kw_tag := Some PNone\<rparr>)"

definition trim_ws_obj :: "store \<Rightarrow> nat \<Rightarrow> bool \<Rightarrow> store \<times> nat" where
  "trim_ws_obj h self enable =
     (if slot_trim_ws (h ! self) = enable then (h, self)
      else copy_with_obj h self (no_kwargs\<lparr>kw_trim_ws := Some enable\<rparr>))"

definition tag_obj :: "store \<Rightarrow> nat \<Rightarrow> pyval \<Rightarrow> store \<times> nat" where
  "tag_obj h self tg =
     (if slot_tag (h ! self) = tg then (h, self)
      else copy_with_obj h self (no_kwargs\<lparr>kw_tag := Some tg\<rparr>))"

text \<open>The object a method call returned.\<close>

definition returned :: "store \<times> nat \<Rightarrow> parser" where
  "returned ret = fst ret ! snd ret"

section \<open>Notions of the specification\<close>

text \<open>
  The position reached by \<open>n\<close> consecutive successful runs of \<open>p\<close> from position \<open>i\<close>, when
  there are that many.
\<close>

primrec consecutive_successes :: "parser \<Rightarrow> string \<Rightarrow> nat \<Rightarrow> int \<Rightarrow> int option" where
  "consecutive_successes p s 0 i = Some i"
| "consecutive_successes p s (Suc n) i =
     (case run p s i of
        Returns (Some (r, j)) \<Rightarrow> consecutive_successes p s n j
      | _ \<Rightarrow> None)"

text \<open>
  The method \<^verbatim>\<open>match\<close> of the compiled pattern \<^verbatim>\<open>re.compile("[0-9]+")\<close>: the longest run
  of digits at the position, at least one; the pattern has no group.
\<close>

definition is_digit :: "char \<Rightarrow> bool" where
  "is_digit c = (let n = (of_char c :: nat) in 48 \<le> n \<and> n \<le> 57)"

definition digits_patt :: pattern where
  "digits_patt s pos =
     (let st = clamp_pos s pos;
          ds = takeWhile is_digit (drop st s)
      in if ds = [] then None
         else Some \<lparr>m_captures = [], m_group0 = ds, m_end = int (st + length ds)\<rparr>)"

text \<open>
  The items of a separated list after its first one: \<open>n\<close> repetitions of the separator \<open>q\<close>
  followed by the item parser \<open>p\<close>, from position \<open>i\<close>.  The result is the list of what
  \<^verbatim>\<open>_add_result\<close> keeps of the item results, in order, and the position reached; nothing of
  it comes from a separator's result.
\<close>

primrec sep_items :: "parser \<Rightarrow> parser \<Rightarrow> string \<Rightarrow> nat \<Rightarrow> int \<Rightarrow> (pyval list \<times> int) option" where
  "sep_items q p s 0 i = Some ([], i)"
| "sep_items q p s (Suc n) i =
     (case run q s i of
        Returns (Some (sep_result, k)) \<Rightarrow>
          (case run p s k of
             Returns (Some (item, j)) \<Rightarrow>
               (case sep_items q p s n j of
                  Some (items, e) \<Rightarrow> Some (add_result [] item @ items, e)
                | None \<Rightarrow> None)
           | _ \<Rightarrow> None)
      | _ \<Rightarrow> None)"

section \<open>Auxiliary facts\<close>

lemma parse_ret_cases:
  fixes x :: "parse_ret outcome"
  obtains (div) "x = Diverges" | (exc) e where "x = Raises e"
    | (fail) "x = Returns None" | (ok) r j where "x = Returns (Some (r, j))"
proof (cases x)
  case None
  then show ?thesis using div by simp
next
  case (Some v)
  show ?thesis
  proof (cases v)
    case (Inl e)
    with Some show ?thesis using exc by simp
  next
    case (Inr ret)
    show ?thesis
    proof (cases ret)
      case None
      with Some Inr show ?thesis using fail by simp
    next
      case (Some rj)
      with \<open>x = Some v\<close> Inr show ?thesis using ok by (cases rj) simp
    qed
  qed
qed


lemma run_body_plain: "run_body pfn [] False PNone s i = pfn s i"
  by (simp add: run_body_def split: option.splits sum.splits prod.splits)

lemma firstmatch_append:
  "firstmatch_do_parse (xs @ ys) s i =
     (case firstmatch_do_parse xs s i of
        Returns None \<Rightarrow> firstmatch_do_parse ys s i
      | other \<Rightarrow> other)"
  by (induction xs) (simp_all split: option.splits sum.splits)

lemma run_FirstMatch: "run (ParserFirstMatch ps) s i = firstmatch_do_parse (map run ps) s i"
  by (simp add: run_body_plain)

lemma run_Chain: "run (ParserChain ps) s i = chain_loop (map run ps) s [] i"
  by (simp add: run_body_plain chain_do_parse_def)

lemma firstmatch_flatten:
  "firstmatch_do_parse (map run (flatten FirstMatch ps)) s i = firstmatch_do_parse (map run ps) s i"
proof (induction ps)
  case Nil
  show ?case by simp
next
  case (Cons p ps)
  show ?case
  proof (cases p)
    case (ParserFirstMatch qs)
    then show ?thesis
      using Cons.IH by (simp add: firstmatch_append run_body_plain split: option.splits sum.splits)
  qed (use Cons.IH in \<open>simp_all split: option.splits sum.splits\<close>)
qed




lemma run_star: "run (star p k am) s i = star_parse_fn p k am s i"
  by (simp add: star_def Parser_init_def no_kwargs_def run_body_plain)

lemma star_loop_counts:
  "consecutive_successes p s n i = Some j \<Longrightarrow> run p s j = Returns None \<Longrightarrow>
   \<exists>rs'. star_loop p None s rc rs i = Returns (rc + int n, rs', j)"
proof (induction n arbitrary: rc rs i)
  case 0
  then show ?case by (subst star_loop.simps) simp
next
  case (Suc n)
  from Suc.prems(1) obtain r i1 where step: "run p s i = Returns (Some (r, i1))"
    and rest: "consecutive_successes p s n i1 = Some j"
    by (auto split: option.splits sum.splits)
  from Suc.IH [OF rest Suc.prems(2), of "rc + 1" "add_result rs r"]
  obtain rs' where "star_loop p None s (rc + 1) (add_result rs r) i1 = Returns (rc + 1 + int n, rs', j)"
    by blast
  then show ?case using step by (subst star_loop.simps) (simp add: algebra_simps)
qed

lemma star_loop_returned:
  assumes ret: "star_loop p None s rc rs i = Returns (rc', rs', j)"
  shows "\<exists>n. rc' = rc + int n \<and> consecutive_successes p s n i = Some j \<and> run p s j = Returns None"
proof -
  let ?P = "\<lambda>p (am::int option) s (rc::int) (rs::pyval list) i (y::error + int \<times> pyval list \<times> int). am = None \<longrightarrow>
    (\<forall>rc' rs' j. y = Inr (rc', rs', j) \<longrightarrow>
      (\<exists>n. rc' = rc + int n \<and> consecutive_successes p s n i = Some j \<and> run p s j = Returns None))"
  have "?P p None s rc rs i (Inr (rc', rs', j))"
  proof (rule star_loop.raw_induct [where P = ?P, OF _ ret])
    fix loop p am s rc rs i y
    assume IH: "\<And>p am s rc rs i y. loop p am s rc rs i = Some y \<Longrightarrow> ?P p am s rc rs i y"
    assume eq: "(if case am of None \<Rightarrow> True | Some m \<Rightarrow> rc < m
                 then case run p s i of
                        Diverges \<Rightarrow> Diverges
                      | Raises e \<Rightarrow> Raises e
                      | Returns None \<Rightarrow> Returns (rc, rs, i)
                      | Returns (Some (nxt_result, nxt_i)) \<Rightarrow>
                          loop p am s (rc + 1) (add_result rs nxt_result) nxt_i
                 else Returns (rc, rs, i)) = Some y"
    show "?P p am s rc rs i y"
    proof (intro impI allI)
      fix rc' rs' j
      assume am: "am = None" and y: "y = Inr (rc', rs', j)"
      show "\<exists>n. rc' = rc + int n \<and> consecutive_successes p s n i = Some j \<and> run p s j = Returns None"
      proof (cases "run p s i" rule: parse_ret_cases)
        case div
        with eq am show ?thesis by simp
      next
        case (exc e)
        with eq am y show ?thesis by simp
      next
        case fail
        with eq am y have "rc' = rc + int 0 \<and> consecutive_successes p s 0 i = Some j \<and> run p s j = Returns None"
          by simp
        then show ?thesis by blast
      next
        case (ok r i1)
        with eq am have "loop p am s (rc + 1) (add_result rs r) i1 = Some y" by simp
        from IH [OF this] am y obtain n where
          n: "rc' = rc + 1 + int n" "consecutive_successes p s n i1 = Some j" "run p s j = Returns None"
          by blast
        have "rc' = rc + int (Suc n) \<and> consecutive_successes p s (Suc n) i = Some j \<and> run p s j = Returns None"
          using n ok by simp
        then show ?thesis by blast
      qed
    qed
  qed
  then show ?thesis by simp
qed

lemma star_loop_stuck:
  assumes stay: "run p s i = Returns (Some (r, i))"
  shows "star_loop p None s rc rs i = Diverges"
proof (rule ccontr)
  assume "star_loop p None s rc rs i \<noteq> Diverges"
  then obtain y where y: "star_loop p None s rc rs i = Some y" by auto
  let ?P = "\<lambda>p' (am::int option) s' (rc::int) (rs::pyval list) i' (y::error + int \<times> pyval list \<times> int).
              \<not> (p' = p \<and> am = None \<and> s' = s \<and> i' = i)"
  have "?P p None s rc rs i y"
  proof (rule star_loop.raw_induct [where P = ?P, OF _ y])
    fix loop p' am s' rc rs i' y
    assume IH: "\<And>p' am s' rc rs i' y. loop p' am s' rc rs i' = Some y \<Longrightarrow> ?P p' am s' rc rs i' y"
    assume eq: "(if case am of None \<Rightarrow> True | Some m \<Rightarrow> rc < m
                 then case run p' s' i' of
                        Diverges \<Rightarrow> Diverges
                      | Raises e \<Rightarrow> Raises e
                      | Returns None \<Rightarrow> Returns (rc, rs, i')
                      | Returns (Some (nxt_result, nxt_i)) \<Rightarrow>
                          loop p' am s' (rc + 1) (add_result rs nxt_result) nxt_i
                 else Returns (rc, rs, i')) = Some y"
    show "?P p' am s' rc rs i' y"
    proof
      assume here: "p' = p \<and> am = None \<and> s' = s \<and> i' = i"
      with eq stay have "loop p None s (rc + 1) (add_result rs r) i = Some y" by simp
      from IH [OF this] show False by simp
    qed
  qed
  then show False by simp
qed

lemma star_loop_bounded_returns:
  "\<forall>j. run p s j \<noteq> Diverges \<Longrightarrow> star_loop p (Some m) s rc rs i \<noteq> Diverges"
proof (induction "nat (m - rc)" arbitrary: rc rs i)
  case 0
  then show ?case by (subst star_loop.simps) simp
next
  case (Suc k)
  have "k = nat (m - (rc + 1))" using Suc.hyps(2) by simp
  from Suc.hyps(1) [OF this Suc.prems]
  have IH: "\<And>rs i. star_loop p (Some m) s (rc + 1) rs i \<noteq> Diverges" .
  from Suc.prems have "run p s i \<noteq> None" by blast
  then obtain v where v: "run p s i = Some v" by blast
  show ?case using v IH
    by (subst star_loop.simps) (simp split: option.splits sum.splits prod.splits)
qed

lemma star_loop_bounded_fixed:
  "run p s i = Returns (Some (r, i)) \<Longrightarrow> star_loop p (Some m) s rc rs i \<noteq> Diverges"
proof (induction "nat (m - rc)" arbitrary: rc rs)
  case 0
  then show ?case by (subst star_loop.simps) simp
next
  case (Suc k)
  have "k = nat (m - (rc + 1))" using Suc.hyps(2) by simp
  from Suc.hyps(1) [OF this Suc.prems]
  have IH: "\<And>rs. star_loop p (Some m) s (rc + 1) rs i \<noteq> Diverges" .
  show ?case using Suc.prems IH
    by (subst star_loop.simps) (simp split: option.splits sum.splits)
qed


lemma add_result_acc: "add_result acc r = acc @ add_result [] r"
  by (cases r) (simp_all add: add_result_def)

lemma add_result_no_None: "PNone \<notin> set (add_result [] r)"
  by (cases r) (simp_all add: add_result_def)

lemma add_result_append: "add_result (acc @ acc') r = acc @ add_result acc' r"
  by (cases r) (simp_all add: add_result_def)

lemma chain_loop_prefix:
  "(chain_loop xs s acc' i = Diverges \<longrightarrow> chain_loop xs s (acc @ acc') i = Diverges)
   \<and> (chain_loop xs s acc' i = Raises e \<longrightarrow> chain_loop xs s (acc @ acc') i = Raises e)
   \<and> (chain_loop xs s acc' i = Returns None \<longrightarrow> chain_loop xs s (acc @ acc') i = Returns None)
   \<and> (chain_loop xs s acc' i = Returns (Some (PList rs, j)) \<longrightarrow>
        chain_loop xs s (acc @ acc') i = Returns (Some (PList (acc @ rs), j)))"
proof (induction xs arbitrary: acc' i)
  case Nil
  show ?case by simp
next
  case (Cons x xs)
  show ?case
    by (cases "x s i" rule: parse_ret_cases) (simp_all add: add_result_append Cons.IH)
qed

lemma chain_loop_shape:
  "chain_loop xs s acc i = Returns (Some (r, j)) \<Longrightarrow>
   \<exists>rs. r = PList rs \<and> (PNone \<notin> set acc \<longrightarrow> PNone \<notin> set rs)"
proof (induction xs arbitrary: acc i)
  case Nil
  then show ?case by auto
next
  case (Cons x xs)
  show ?case
  proof (cases "x s i" rule: parse_ret_cases)
    case (ok r1 j1)
    with Cons.prems have "chain_loop xs s (add_result acc r1) j1 = Returns (Some (r, j))" by simp
    from Cons.IH [OF this] obtain rs where
      rs: "r = PList rs" "PNone \<notin> set (add_result acc r1) \<longrightarrow> PNone \<notin> set rs" by blast
    have "PNone \<notin> set acc \<Longrightarrow> PNone \<notin> set (add_result acc r1)"
      using add_result_no_None [of r1] add_result_acc [of acc r1] by simp
    with rs show ?thesis by blast
  qed (use Cons.prems in simp_all)
qed

lemma chain_loop_append:
  "chain_loop (xs @ ys) s acc i =
     (case chain_loop xs s acc i of
        Returns (Some (PList rs, j)) \<Rightarrow> chain_loop ys s rs j
      | other \<Rightarrow> other)"
proof (induction xs arbitrary: acc i)
  case Nil
  show ?case by simp
next
  case (Cons x xs)
  show ?case
    by (cases "x s i" rule: parse_ret_cases) (simp_all add: Cons.IH)
qed

lemma chain_loop_nested:
  "chain_loop ((\<lambda>s i. chain_loop xs s [] i) # ys) s acc i = chain_loop (xs @ ys) s acc i"
proof (cases "chain_loop xs s [] i" rule: parse_ret_cases)
  case (ok r j)
  from chain_loop_shape [OF ok] obtain rs where rs: "r = PList rs" "PNone \<notin> set rs" by auto
  have f: "filter (\<lambda>z. z \<noteq> PNone) rs = rs" using rs(2) by (induction rs) auto
  have "chain_loop xs s (acc @ []) i = Returns (Some (PList (acc @ rs), j))"
    using ok rs chain_loop_prefix [of xs s "[]" i acc _ rs j] by simp
  then show ?thesis using ok rs f by (simp add: chain_loop_append add_result_def)
next
  case div
  then have "chain_loop xs s (acc @ []) i = Diverges"
    using chain_loop_prefix [of xs s "[]" i acc] by simp
  with div show ?thesis by (simp add: chain_loop_append)
next
  case (exc e)
  then have "chain_loop xs s (acc @ []) i = Raises e"
    using chain_loop_prefix [of xs s "[]" i acc e] by simp
  with exc show ?thesis by (simp add: chain_loop_append)
next
  case fail
  then have "chain_loop xs s (acc @ []) i = Returns None"
    using chain_loop_prefix [of xs s "[]" i acc] by simp
  with fail show ?thesis by (simp add: chain_loop_append)
qed

lemma chain_flatten:
  "chain_loop (map run (flatten Chain ps)) s acc i = chain_loop (map run ps) s acc i"
proof (induction ps arbitrary: acc i)
  case Nil
  show ?case by simp
next
  case (Cons p ps)
  show ?case
  proof (cases p)
    case (ParserChain qs)
    have r: "run p = (\<lambda>s i. chain_loop (map run qs) s [] i)"
      using ParserChain by (intro ext) (simp add: run_body_plain chain_do_parse_def)
    have "chain_loop (map run (p # ps)) s acc i = chain_loop (map run qs @ map run ps) s acc i"
      unfolding list.map r by (rule chain_loop_nested)
    also have "\<dots> = chain_loop (map run qs @ map run (flatten Chain ps)) s acc i"
      by (simp add: chain_loop_append Cons.IH split: option.splits sum.splits prod.splits pyval.splits)
    finally show ?thesis using ParserChain by simp
  next
    case (Parser f cs tr tg)
    then show ?thesis
      by (cases "run p s i" rule: parse_ret_cases) (simp_all add: Cons.IH)
  next
    case (ParserFirstMatch qs)
    then show ?thesis
      by (cases "run p s i" rule: parse_ret_cases) (simp_all add: Cons.IH)
  qed
qed

lemma run_chain_init:
  "run (ParserList_init Chain ps) s i = chain_do_parse (map run ps) s i"
  by (simp add: ParserList_init_def run_body_plain chain_do_parse_def chain_flatten)

lemma run_firstmatch_init:
  "run (ParserList_init FirstMatch ps) s i = firstmatch_do_parse (map run ps) s i"
  by (simp add: ParserList_init_def run_body_plain firstmatch_flatten)

lemma list_init_assoc:
  "ParserList_init cls [ParserList_init cls [a, b], c] = ParserList_init cls [a, b, c]"
  "ParserList_init cls [a, ParserList_init cls [b, c]] = ParserList_init cls [a, b, c]"
  by (cases cls; simp add: ParserList_init_def)+

lemma run_chomp:
  "run (chomp n) s i =
     (if \<not> (i + n \<le> int (length s)) then Returns None
      else Returns (Some (PStr (py_slice s i (i + n)), i + n)))"
  by (simp add: chomp_def Parser_init_def no_kwargs_def run_body_plain)

lemma run_slots:
  "run p s i = run_body (slot_parse_fn p) (slot_conversions p) (slot_trim_ws p) (slot_tag p) s i"
  by (cases p) simp_all

lemma copy_with_conversions:
  "copy_with p (no_kwargs\<lparr>kw_conversions := Some cs\<rparr>) =
     Parser (slot_parse_fn p) (slot_conversions p @ cs) (slot_trim_ws p) (slot_tag p)"
  by (simp add: copy_with_def Parser_init_def no_kwargs_def Let_def)

lemma copy_with_trim:
  "copy_with p (no_kwargs\<lparr>kw_trim_ws := Some e\<rparr>) =
     Parser (slot_parse_fn p) (slot_conversions p) e (slot_tag p)"
  by (simp add: copy_with_def Parser_init_def no_kwargs_def Let_def)

lemma copy_with_tag:
  "copy_with p (no_kwargs\<lparr>kw_tag := Some tg\<rparr>) =
     Parser (slot_parse_fn p) (slot_conversions p) (slot_trim_ws p) tg"
  by (simp add: copy_with_def Parser_init_def no_kwargs_def Let_def)

lemma copy_with_skip:
  "copy_with p (no_kwargs\<lparr>kw_conversions := Some cs, kw_tag := Some tg\<rparr>) =
     Parser (slot_parse_fn p) (slot_conversions p @ cs) (slot_trim_ws p) tg"
  by (simp add: copy_with_def Parser_init_def no_kwargs_def Let_def)

lemma copy_with_parse_fn: "slot_parse_fn (copy_with p kw) = slot_parse_fn p"
  by (simp add: copy_with_def Parser_init_def Let_def)

lemma apply_conversions_append:
  "apply_conversions (cs @ ds) r =
     (case apply_conversions cs r of
        Diverges \<Rightarrow> Diverges
      | Raises e \<Rightarrow> Raises e
      | Returns None \<Rightarrow> Returns None
      | Returns (Some r') \<Rightarrow> apply_conversions ds r')"
proof (induction cs arbitrary: r)
  case Nil
  show ?case by simp
next
  case (Cons c cs)
  show ?case
    by (simp add: Cons.IH split: option.splits sum.splits)
qed

lemma apply_conversions_const:
  "apply_conversions [\<lambda>_. Returns v] r =
     (if v = PSkip then Returns (Some PNone)
      else if v = PNone then Returns None
      else Returns (Some v))"
  by simp

lemma run_skip_result:
  assumes "run (skip q) s i = Returns (Some (r, j))"
  shows "r = PNone"
proof -
  have "run (skip q) s i =
      run_body (slot_parse_fn q) (slot_conversions q @ [\<lambda>_. Returns PSkip]) (slot_trim_ws q) PNone s i"
    by (simp add: skip_def copy_with_skip)
  with assms show ?thesis
    by (auto simp: run_body_def apply_conversions_append Let_def
        split: option.splits sum.splits prod.splits if_splits)
qed

lemma run_parser_add: "run (parser_add a b) s i = chain_do_parse [run a, run b] s i"
  by (simp add: parser_add_def run_chain_init)

lemma seplist_first_item:
  assumes "seplist p sep = Inr sl" and "run p s i = Returns None"
  shows "run sl s i = Returns None"
proof (cases sep)
  case (SepStr z)
  with assms show ?thesis
    by (auto simp: seplist_def run_parser_add chain_do_parse_def)
next
  case (SepParser q)
  with assms show ?thesis
    by (auto simp: seplist_def run_parser_add chain_do_parse_def)
next
  case (SepOther v)
  with assms show ?thesis by (simp add: seplist_def)
qed

lemma sep_item_step:
  assumes "run (parser_add (skip q) p) s i = Returns (Some (r, j))"
  shows "\<exists>k rp. run (skip q) s i = Returns (Some (PNone, k)) \<and> run p s k = Returns (Some (rp, j))
           \<and> r = PList (add_result [] rp)"
proof (cases "run (skip q) s i" rule: parse_ret_cases)
  case (ok r1 k)
  have r1: "r1 = PNone" using run_skip_result [OF ok] .
  show ?thesis
  proof (cases "run p s k" rule: parse_ret_cases)
    case (ok rp j')
    with assms \<open>run (skip q) s i = Returns (Some (r1, k))\<close> r1 show ?thesis
      by (simp add: run_parser_add chain_do_parse_def add_result_def)
  qed (use assms ok r1 in \<open>simp_all add: run_parser_add chain_do_parse_def add_result_def\<close>)
qed (use assms in \<open>simp_all add: run_parser_add chain_do_parse_def\<close>)

lemma run_regex_digits:
  "run (regex digits_patt) s i =
     (case digits_patt s (ws_end s i) of
        None \<Rightarrow> Returns None
      | Some m \<Rightarrow> Returns (Some (PStr (m_group0 m), ws_end s (m_end m))))"
  by (auto simp: regex_def Parser_init_def no_kwargs_def run_body_def regex_parse_fn_def
      digits_patt_def groupdict_def groups_def Let_def split: option.splits if_splits)

lemma groupdict_of_set:
  "set (groupdict_of caps) = {(name, v). (Some name, v) \<in> set caps}"
  by (induction caps rule: groupdict_of.induct) auto

lemma run_skip:
  "run (skip q) s i =
     (case run q s i of
        Diverges \<Rightarrow> Diverges
      | Raises e \<Rightarrow> Raises e
      | Returns None \<Rightarrow> Returns None
      | Returns (Some (r, k)) \<Rightarrow> Returns (Some (PNone, k)))"
proof -
  have "run (skip q) s i =
      run_body (slot_parse_fn q) (slot_conversions q @ [\<lambda>_. Returns PSkip]) (slot_trim_ws q) PNone s i"
    by (simp add: skip_def copy_with_skip)
  then show ?thesis
    by (simp add: run_slots [of q] run_body_def apply_conversions_append apply_conversions_const Let_def
        del: apply_conversions.simps
        split: option.splits sum.splits prod.splits)
qed

lemma sep_items_no_None:
  "sep_items q p s n i = Some (items, e) \<Longrightarrow> PNone \<notin> set items"
proof (induction n arbitrary: i items)
  case 0
  then show ?case by simp
next
  case (Suc n)
  from Suc.prems obtain sr k item j items' where
    a: "run q s i = Returns (Some (sr, k))" "run p s k = Returns (Some (item, j))"
       "sep_items q p s n j = Some (items', e)" "items = add_result [] item @ items'"
    by (auto split: option.splits sum.splits prod.splits)
  from Suc.IH [OF a(3)] add_result_no_None [of item] a(4) show ?case by simp
qed

lemma filter_no_None: "PNone \<notin> set xs \<Longrightarrow> filter (\<lambda>z. z \<noteq> PNone) xs = xs"
  by (induction xs) auto

lemma star_loop_sep_items:
  assumes ret: "star_loop (parser_add (skip q) p) None s rc acc i = Returns (rc', rs', e)"
  shows "\<exists>n items. sep_items q p s n i = Some (items, e) \<and> rs' = acc @ items"
proof -
  let ?X = "parser_add (skip q) p"
  let ?P = "\<lambda>p' (am::int option) s' (rc::int) (acc::pyval list) i (y::error + int \<times> pyval list \<times> int).
    p' = ?X \<and> am = None \<and> s' = s \<longrightarrow>
    (\<forall>rc' rs' e. y = Inr (rc', rs', e) \<longrightarrow>
      (\<exists>n items. sep_items q p s n i = Some (items, e) \<and> rs' = acc @ items))"
  have "?P ?X None s rc acc i (Inr (rc', rs', e))"
  proof (rule star_loop.raw_induct [where P = ?P, OF _ ret])
    fix loop p' am s' rc acc i y
    assume IH: "\<And>p' am s' rc acc i y. loop p' am s' rc acc i = Some y \<Longrightarrow> ?P p' am s' rc acc i y"
    assume eq: "(if case am of None \<Rightarrow> True | Some m \<Rightarrow> rc < m
                 then case run p' s' i of
                        Diverges \<Rightarrow> Diverges
                      | Raises e \<Rightarrow> Raises e
                      | Returns None \<Rightarrow> Returns (rc, acc, i)
                      | Returns (Some (nxt_result, nxt_i)) \<Rightarrow>
                          loop p' am s' (rc + 1) (add_result acc nxt_result) nxt_i
                 else Returns (rc, acc, i)) = Some y"
    show "?P p' am s' rc acc i y"
    proof (intro impI allI)
      fix rc' rs' e
      assume here: "p' = ?X \<and> am = None \<and> s' = s" and y: "y = Inr (rc', rs', e)"
      show "\<exists>n items. sep_items q p s n i = Some (items, e) \<and> rs' = acc @ items"
      proof (cases "run ?X s i" rule: parse_ret_cases)
        case div
        with eq here show ?thesis by simp
      next
        case (exc e)
        with eq here y show ?thesis by simp
      next
        case fail
        with eq here y have "sep_items q p s 0 i = Some ([], e) \<and> rs' = acc @ []"
          by simp
        then show ?thesis by blast
      next
        case (ok r i1)
        from sep_item_step [OF ok] obtain k rp where
          st: "run (skip q) s i = Returns (Some (PNone, k))" "run p s k = Returns (Some (rp, i1))"
              "r = PList (add_result [] rp)"
          by blast
        from st(1) obtain rq where rq: "run q s i = Returns (Some (rq, k))"
          by (auto simp: run_skip split: option.splits sum.splits prod.splits)
        have ar: "add_result acc r = acc @ add_result [] rp"
          using st(3) add_result_no_None [of rp] by (simp add: add_result_def filter_no_None)
        from ok eq here have "loop ?X None s (rc + 1) (add_result acc r) i1 = Some y" by simp
        from IH [OF this] y obtain n items where
          n: "sep_items q p s n i1 = Some (items, e)" "rs' = add_result acc r @ items"
          by blast
        have "sep_items q p s (Suc n) i = Some (add_result [] rp @ items, e)
              \<and> rs' = acc @ (add_result [] rp @ items)"
          using n rq st(2) ar by simp
        then show ?thesis by blast
      qed
    qed
  qed
  then show ?thesis by simp
qed

lemma seplist_result:
  assumes "run (parser_add p (star (parser_add (skip q) p) 0 None)) s i = Returns (Some (res, e))"
  shows "\<exists>item j n items. run p s i = Returns (Some (item, j)) \<and> sep_items q p s n j = Some (items, e)
           \<and> res = PList (add_result [] item @ items)"
proof (cases "run p s i" rule: parse_ret_cases)
  case (ok item j)
  let ?X = "parser_add (skip q) p"
  from assms ok have a: "chain_loop [star_parse_fn ?X 0 None] s (add_result [] item) j = Returns (Some (res, e))"
    by (simp add: run_parser_add chain_do_parse_def run_star [abs_def])
  then obtain rc rs' where l: "star_loop ?X None s 0 [] j = Returns (rc, rs', e)"
    and res: "res = PList (add_result (add_result [] item) (PList rs'))"
    by (auto simp: star_parse_fn_def split: option.splits sum.splits prod.splits if_splits)
  from star_loop_sep_items [OF l] obtain n items where
    n: "sep_items q p s n j = Some (items, e)" "rs' = items" by auto
  have "res = PList (add_result [] item @ items)"
    using res n sep_items_no_None [OF n(1)] by (simp add: add_result_def filter_no_None)
  with ok n show ?thesis by blast
qed (use assms in \<open>simp_all add: run_parser_add chain_do_parse_def\<close>)

lemma seplist_digits_example:
  "map_sum id (\<lambda>sl. parse sl ''1,2,3'') (seplist (regex digits_patt) (SepStr '','')) =
     Inr (Returns (PList [PStr ''1'', PStr ''2'', PStr ''3'']))"
  by code_simp

section \<open>The claims\<close>

subsection \<open>C1: flattening of chains and of alternatives\<close>

text \<open>
  C1.  For all parsers \<open>a\<close>, \<open>b\<close>, \<open>c\<close>, every string and every start position, the composites
  \<^verbatim>\<open>(a + b) + c\<close>, \<^verbatim>\<open>a + (b + c)\<close> and the chain of the three built in one call run to
  the same outcome, with the same result list and end position, and that outcome is the
  one of running \<open>a\<close>, \<open>b\<close>, \<open>c\<close> in sequence, also when one of them is a chain itself.  The
  same holds of \<^verbatim>\<open>(a | b) | c\<close>, \<^verbatim>\<open>a | (b | c)\<close> and the alternation built in one call.  So
  the composites accept the same strings: \<^verbatim>\<open>parse\<close> agrees on them too.
\<close>

theorem flattening_unobservable:
  "run (parser_add (parser_add a b) c) s i = run (ParserList_init Chain [a, b, c]) s i
   \<and> run (parser_add a (parser_add b c)) s i = run (ParserList_init Chain [a, b, c]) s i
   \<and> run (ParserList_init Chain [a, b, c]) s i = chain_do_parse [run a, run b, run c] s i
   \<and> run (parser_or (parser_or a b) c) s i = run (ParserList_init FirstMatch [a, b, c]) s i
   \<and> run (parser_or a (parser_or b c)) s i = run (ParserList_init FirstMatch [a, b, c]) s i
   \<and> run (ParserList_init FirstMatch [a, b, c]) s i = firstmatch_do_parse [run a, run b, run c] s i
   \<and> parse (parser_add (parser_add a b) c) s = parse (ParserList_init Chain [a, b, c]) s
   \<and> parse (parser_add a (parser_add b c)) s = parse (ParserList_init Chain [a, b, c]) s
   \<and> parse (parser_or (parser_or a b) c) s = parse (ParserList_init FirstMatch [a, b, c]) s
   \<and> parse (parser_or a (parser_or b c)) s = parse (ParserList_init FirstMatch [a, b, c]) s"
  by (simp add: parser_add_def parser_or_def list_init_assoc run_chain_init run_firstmatch_init)

theorem flattening_unobservable_witness:
  "run (parser_add (parser_add (chomp 1) (chomp 1)) (chomp 1)) ''abc'' 0 =
     Returns (Some (PList [PStr ''a'', PStr ''b'', PStr ''c''], 3))
   \<and> run (parser_add (chomp 1) (parser_add (chomp 1) (chomp 1))) ''abc'' 0 =
     Returns (Some (PList [PStr ''a'', PStr ''b'', PStr ''c''], 3))
   \<and> run (parser_or (parser_or (chomp 4) (chomp 1)) (chomp 2)) ''abc'' 0 =
     Returns (Some (PStr ''a'', 1))
   \<and> run (parser_or (chomp 4) (parser_or (chomp 1) (chomp 2))) ''abc'' 0 =
     Returns (Some (PStr ''a'', 1))"
proof -
  have e: "chain_do_parse [run (chomp 1), run (chomp 1), run (chomp 1)] ''abc'' 0 =
      Returns (Some (PList [PStr ''a'', PStr ''b'', PStr ''c''], 3))"
    by (simp add: chain_do_parse_def run_chomp py_slice_def slice_index_def add_result_def)
  have f: "firstmatch_do_parse [run (chomp 4), run (chomp 1), run (chomp 2)] ''abc'' 0 =
      Returns (Some (PStr ''a'', 1))"
    by (simp add: run_chomp py_slice_def slice_index_def)
  note c = flattening_unobservable [of "chomp 1" "chomp 1" "chomp 1" "''abc''" 0]
  note d = flattening_unobservable [of "chomp 4" "chomp 1" "chomp 2" "''abc''" 0]
  have 1: "run (parser_add (parser_add (chomp 1) (chomp 1)) (chomp 1)) ''abc'' 0 =
      chain_do_parse [run (chomp 1), run (chomp 1), run (chomp 1)] ''abc'' 0"
    using c by metis
  have 2: "run (parser_add (chomp 1) (parser_add (chomp 1) (chomp 1))) ''abc'' 0 =
      chain_do_parse [run (chomp 1), run (chomp 1), run (chomp 1)] ''abc'' 0"
    using c by metis
  have 3: "run (parser_or (parser_or (chomp 4) (chomp 1)) (chomp 2)) ''abc'' 0 =
      firstmatch_do_parse [run (chomp 4), run (chomp 1), run (chomp 2)] ''abc'' 0"
    using d by metis
  have 4: "run (parser_or (chomp 4) (parser_or (chomp 1) (chomp 2))) ''abc'' 0 =
      firstmatch_do_parse [run (chomp 4), run (chomp 1), run (chomp 2)] ''abc'' 0"
    using d by metis
  show ?thesis unfolding 1 2 3 4 e f by simp
qed

subsection \<open>C2: parsing a whole string\<close>

text \<open>
  C2, as the code has it.  \<^verbatim>\<open>p.parse(s)\<close> returns \<^verbatim>\<open>None\<close> when \<^verbatim>\<open>p.run(s, 0)\<close> fails and
  when it succeeds at an end position other than \<^verbatim>\<open>len(s)\<close>; when \<^verbatim>\<open>run\<close> succeeds at
  \<^verbatim>\<open>len(s)\<close>, \<^verbatim>\<open>parse\<close> returns the result component of what \<^verbatim>\<open>run\<close> returned.  Hence
  \<^verbatim>\<open>parse\<close> returns a value other than \<^verbatim>\<open>None\<close> only when \<^verbatim>\<open>run\<close> succeeds at \<^verbatim>\<open>len(s)\<close>
  with that value as its result.  It is not so that \<^verbatim>\<open>parse\<close> returns a result exactly
  when \<^verbatim>\<open>run\<close> succeeds at \<^verbatim>\<open>len(s)\<close>: the result component may be \<^verbatim>\<open>None\<close> itself, and
  then what \<^verbatim>\<open>parse\<close> returns is what it returns for a failure.
\<close>

theorem parse_whole_string:
  "(run p s 0 = Returns None \<longrightarrow> parse p s = Returns PNone)
   \<and> (\<forall>r j. run p s 0 = Returns (Some (r, j)) \<and> j \<noteq> int (length s) \<longrightarrow> parse p s = Returns PNone)
   \<and> (\<forall>r. run p s 0 = Returns (Some (r, int (length s))) \<longrightarrow> parse p s = Returns r)
   \<and> (\<forall>r. parse p s = Returns r \<and> r \<noteq> PNone \<longrightarrow> run p s 0 = Returns (Some (r, int (length s))))"
  by (auto simp: parse_def split: option.splits sum.splits if_splits)

theorem parse_whole_string_witness:
  "run (chomp 3) ''ab'' 0 = Returns None \<and> parse (chomp 3) ''ab'' = Returns PNone
   \<and> run (chomp 1) ''ab'' 0 = Returns (Some (PStr ''a'', 1)) \<and> parse (chomp 1) ''ab'' = Returns PNone
   \<and> run (chomp 2) ''ab'' 0 = Returns (Some (PStr ''ab'', 2)) \<and> parse (chomp 2) ''ab'' = Returns (PStr ''ab'')
   \<and> PStr ''ab'' \<noteq> PNone"
proof -
  have a: "run (chomp 3) ''ab'' 0 = Returns None"
    by (simp add: run_chomp)
  have b: "run (chomp 1) ''ab'' 0 = Returns (Some (PStr ''a'', 1)) \<and> (1::int) \<noteq> int (length ''ab'')"
    by (simp add: run_chomp py_slice_def slice_index_def)
  have c: "run (chomp 2) ''ab'' 0 = Returns (Some (PStr ''ab'', int (length ''ab'')))"
    by (simp add: run_chomp py_slice_def slice_index_def)
  have c2: "run (chomp 2) ''ab'' 0 = Returns (Some (PStr ''ab'', 2))"
    by (simp add: run_chomp py_slice_def slice_index_def)
  have t1: "parse (chomp 3) ''ab'' = Returns PNone"
    using parse_whole_string [of "chomp 3" "''ab''"] a by blast
  have t2: "parse (chomp 1) ''ab'' = Returns PNone"
    using parse_whole_string [of "chomp 1" "''ab''"] b by blast
  have t3: "parse (chomp 2) ''ab'' = Returns (PStr ''ab'')"
    using parse_whole_string [of "chomp 2" "''ab''"] c by blast
  have t4: "run (chomp 2) ''ab'' 0 = Returns (Some (PStr ''ab'', int (length ''ab'')))"
    using parse_whole_string [of "chomp 2" "''ab''"] t3 by blast
  have e: "PStr ''ab'' \<noteq> PNone" by simp
  from a b c2 t1 t2 t3 e show ?thesis by blast
qed

text \<open>
  The input on which the sentence of the specification fails: \<^verbatim>\<open>ex("a")\<close> consumes all of
  \<^verbatim>\<open>"a"\<close>, so \<^verbatim>\<open>run\<close> succeeds with end position \<^verbatim>\<open>len(s) = 1\<close>, and its result is \<^verbatim>\<open>None\<close>;
  \<^verbatim>\<open>parse\<close> returns that \<^verbatim>\<open>None\<close>, the very value it returns on \<^verbatim>\<open>"b"\<close>, where \<^verbatim>\<open>run\<close> fails.
\<close>

theorem parse_none_result:
  "run (ex ''a'') ''a'' 0 = Returns (Some (PNone, int (length ''a'')))
   \<and> parse (ex ''a'') ''a'' = Returns PNone
   \<and> run (ex ''a'') ''b'' 0 = Returns None
   \<and> parse (ex ''a'') ''b'' = Returns PNone"
  by (simp add: parse_def ex_def Parser_init_def no_kwargs_def run_body_def startswith_def
      ws_end_def clamp_pos_def is_space_def Let_def)

subsection \<open>C3: alternation takes the first match\<close>



subsection \<open>C4: the lower bound of a repetition\<close>

text \<open>
  C4.  \<^verbatim>\<open>star(p, at_least=k).run(s, i)\<close> returns \<^verbatim>\<open>None\<close> exactly when \<open>p\<close> succeeds fewer
  than \<open>k\<close> times in a row from \<open>i\<close> and then fails.  The failure carries no position: an
  alternative tried after it runs at \<open>i\<close>, as if the repetition had not been tried.  With
  \<^verbatim>\<open>at_least=0\<close> and \<open>p\<close> failing at \<open>i\<close>, the repetition succeeds with the empty list and the
  end position \<open>i\<close>.
\<close>

theorem star_at_least:
  "(run (star p k None) s i = Returns None \<longleftrightarrow>
      (\<exists>n j. int n < k \<and> consecutive_successes p s n i = Some j \<and> run p s j = Returns None))
   \<and> (run (star p k None) s i = Returns None \<longrightarrow>
        run (parser_or (star p k None) q) s i = run q s i)
   \<and> (run p s i = Returns None \<longrightarrow> run (star p 0 None) s i = Returns (Some (PList [], i)))"
proof (intro conjI impI iffI)
  assume "run (star p k None) s i = Returns None"
  then have a: "star_parse_fn p k None s i = Returns None" by (simp add: run_star)
  then obtain rc rs j where l: "star_loop p None s 0 [] i = Returns (rc, rs, j)" and "rc < k"
    by (auto simp: star_parse_fn_def split: option.splits sum.splits prod.splits if_splits)
  from star_loop_returned [OF l] \<open>rc < k\<close>
  show "\<exists>n j. int n < k \<and> consecutive_successes p s n i = Some j \<and> run p s j = Returns None"
    by auto
next
  assume "\<exists>n j. int n < k \<and> consecutive_successes p s n i = Some j \<and> run p s j = Returns None"
  then obtain n j where n: "int n < k" "consecutive_successes p s n i = Some j" "run p s j = Returns None"
    by blast
  from star_loop_counts [OF n(2,3), of 0 "[]"] obtain rs where
    "star_loop p None s 0 [] i = Returns (int n, rs, j)" by auto
  with n(1) show "run (star p k None) s i = Returns None"
    by (simp add: run_star star_parse_fn_def)
next
  assume "run (star p k None) s i = Returns None"
  then show "run (parser_or (star p k None) q) s i = run q s i"
    by (cases "run q s i" rule: parse_ret_cases) (simp_all add: parser_or_def run_firstmatch_init)
next
  assume "run p s i = Returns None"
  then have "star_loop p None s 0 [] i = Returns (0, [], i)"
    by (subst star_loop.simps) simp
  then show "run (star p 0 None) s i = Returns (Some (PList [], i))"
    by (simp add: run_star star_parse_fn_def)
qed

theorem star_at_least_witness:
  "consecutive_successes (chomp 1) ''a'' 1 0 = Some 1
   \<and> run (chomp 1) ''a'' 1 = Returns None
   \<and> run (star (chomp 1) 2 None) ''a'' 0 = Returns None
   \<and> run (parser_or (star (chomp 1) 2 None) (chomp 0)) ''a'' 0 = Returns (Some (PStr '''', 0))
   \<and> run (star (chomp 1) 0 None) ''a'' 1 = Returns (Some (PList [], 1))"
proof -
  have a: "run (chomp 1) ''a'' 1 = Returns None"
    by (simp add: run_chomp)
  have b: "consecutive_successes (chomp 1) ''a'' (Suc 0) 0 = Some 1"
    by (simp add: run_chomp a)
  have c: "\<exists>n j. int n < 2 \<and> consecutive_successes (chomp 1) ''a'' n 0 = Some j \<and>
             run (chomp 1) ''a'' j = Returns None"
    using a b by (intro exI [of _ "Suc 0"] exI [of _ 1]) simp
  have d: "run (chomp 0) ''a'' 0 = Returns (Some (PStr '''', 0))"
    by (simp add: run_chomp py_slice_def slice_index_def)
  from star_at_least [of "chomp 1" 2 "''a''" 0 "chomp 0"] star_at_least [of "chomp 1" 2 "''a''" 1 "chomp 0"]
    a b c d
  show ?thesis by simp
qed

subsection \<open>C5: binding a forward reference\<close>

text \<open>
  C5, as the code has it.  \<^verbatim>\<open>set_ref\<close> assigns the slot \<^verbatim>\<open>_ref\<close> and nothing else: it
  returns on every placeholder, bound or not, and never raises.  After a first bind to \<open>p\<close>
  the placeholder runs as \<open>p\<close>; after a second bind to \<open>q\<close> it runs as \<open>q\<close>, so the second
  bind replaces the target without a sign.  What does fail with an exception
  (\<^verbatim>\<open>AttributeError\<close>), and not with the parse failure \<^verbatim>\<open>None\<close>, is running a placeholder
  that was never bound.
\<close>

theorem set_ref_overwrites:
  "(\<exists>r1 r2. set_ref self p = Returns r1 \<and> set_ref r1 q = Returns r2
       \<and> run_ref r1 s i = run p s i \<and> run_ref r2 s i = run q s i)
   \<and> run_ref ParserRef_init s i = Raises AttributeError"
  by (simp add: set_ref_def run_ref_def ParserRef_init_def)

theorem set_ref_overwrites_witness:
  "(\<exists>r1 r2. set_ref ParserRef_init (chomp 1) = Returns r1 \<and> set_ref r1 (chomp 2) = Returns r2
       \<and> run_ref r1 ''ab'' 0 = Returns (Some (PStr ''a'', 1))
       \<and> run_ref r2 ''ab'' 0 = Returns (Some (PStr ''ab'', 2)))
   \<and> run_ref ParserRef_init ''ab'' 0 = Raises AttributeError"
proof -
  have a: "run (chomp 1) ''ab'' 0 = Returns (Some (PStr ''a'', 1))"
    by (simp add: run_chomp py_slice_def slice_index_def)
  have b: "run (chomp 2) ''ab'' 0 = Returns (Some (PStr ''ab'', 2))"
    by (simp add: run_chomp py_slice_def slice_index_def)
  note t = set_ref_overwrites [of ParserRef_init "chomp 1" "chomp 2" "''ab''" 0]
  from t obtain r1 r2 where
    r: "set_ref ParserRef_init (chomp 1) = Returns r1" "set_ref r1 (chomp 2) = Returns r2"
       "run_ref r1 ''ab'' 0 = run (chomp 1) ''ab'' 0" "run_ref r2 ''ab'' 0 = run (chomp 2) ''ab'' 0"
    by blast
  have 1: "run_ref r1 ''ab'' 0 = Returns (Some (PStr ''a'', 1))" using r(3) a by simp
  have 2: "run_ref r2 ''ab'' 0 = Returns (Some (PStr ''ab'', 2))" using r(4) b by simp
  have 3: "run_ref ParserRef_init ''ab'' 0 = Raises AttributeError" using t by blast
  from r(1,2) 1 2 3 show ?thesis by blast
qed

text \<open>
  The input on which the sentence of the specification fails: a placeholder bound to
  \<^verbatim>\<open>chomp(1)\<close> is bound again, to \<^verbatim>\<open>chomp(2)\<close>.  The second \<^verbatim>\<open>set_ref\<close> raises nothing; it
  returns, and from then on the placeholder consumes two characters.
\<close>

theorem second_bind_rebinds:
  "(\<nexists>e. set_ref (ParserRef (Some (chomp 1))) (chomp 2) = Raises e)
   \<and> set_ref (ParserRef (Some (chomp 1))) (chomp 2) = Returns (ParserRef (Some (chomp 2)))
   \<and> run_ref (ParserRef (Some (chomp 1))) ''ab'' 0 = Returns (Some (PStr ''a'', 1))
   \<and> run_ref (ParserRef (Some (chomp 2))) ''ab'' 0 = Returns (Some (PStr ''ab'', 2))"
  by (simp add: set_ref_def run_ref_def run_chomp py_slice_def slice_index_def)

subsection \<open>C6: replacing the result by a constant\<close>

text \<open>
  C6, as the code has it.  \<^verbatim>\<open>p.const(v).run(s, i)\<close> does not return, raises or fails as
  \<^verbatim>\<open>p.run(s, i)\<close> does.  When \<^verbatim>\<open>p.run(s, i)\<close> succeeds with end position \<open>j\<close> and \<open>v\<close> is not
  \<^verbatim>\<open>None\<close>, it succeeds with the same end position and the result \<open>v\<close>, wrapped by the tag
  of \<open>p\<close> when \<open>p\<close> has one (for \<open>v\<close> the private sentinel of \<^verbatim>\<open>skip\<close> the result is \<^verbatim>\<open>None\<close>).
  When \<open>v\<close> is \<^verbatim>\<open>None\<close> it fails, although \<open>p\<close> succeeded: \<^verbatim>\<open>run\<close> takes a conversion to
  \<^verbatim>\<open>None\<close> for a parse failure.  So the replacement is not unconditional for every \<open>v\<close>.
\<close>

theorem const_replaces_result:
  "run (const p v) s i =
     (case run p s i of
        Diverges \<Rightarrow> Diverges
      | Raises e \<Rightarrow> Raises e
      | Returns None \<Rightarrow> Returns None
      | Returns (Some (r, j)) \<Rightarrow>
          if v = PNone then Returns None
          else Returns (Some (let v' = (if v = PSkip then PNone else v)
                              in if slot_tag p \<noteq> PNone then Tagged (slot_tag p) v' else v', j)))"
proof -
  have "run (const p v) s i =
      run_body (slot_parse_fn p) (slot_conversions p @ [\<lambda>_. Returns v]) (slot_trim_ws p) (slot_tag p) s i"
    by (simp add: const_def copy_with_conversions)
  then show ?thesis
    by (simp add: run_slots [of p] run_body_def apply_conversions_append apply_conversions_const Let_def
        del: apply_conversions.simps
        split: option.splits sum.splits prod.splits)
qed

theorem const_replaces_result_witness:
  "run (chomp 1) ''a'' 0 = Returns (Some (PStr ''a'', 1))
   \<and> run (const (chomp 1) (PInt 7)) ''a'' 0 = Returns (Some (PInt 7, 1))
   \<and> run (const (tag (chomp 1) (PStr ''t'')) (PInt 7)) ''a'' 0 =
       Returns (Some (Tagged (PStr ''t'') (PInt 7), 1))
   \<and> run (const (chomp 1) (PInt 7)) ''a'' 1 = Returns None"
proof -
  have a: "run (chomp 1) ''a'' 0 = Returns (Some (PStr ''a'', 1))"
    by (simp add: run_chomp py_slice_def slice_index_def)
  have b: "slot_tag (chomp 1) = PNone"
    by (simp add: chomp_def Parser_init_def no_kwargs_def)
  have c: "run (tag (chomp 1) (PStr ''t'')) ''a'' 0 = Returns (Some (Tagged (PStr ''t'') (PStr ''a''), 1))"
    by (simp add: tag_def copy_with_def Let_def chomp_def Parser_init_def no_kwargs_def run_body_def
        py_slice_def slice_index_def)
  have d: "slot_tag (tag (chomp 1) (PStr ''t'')) = PStr ''t''"
    by (simp add: tag_def copy_with_def Let_def chomp_def Parser_init_def no_kwargs_def)
  have e: "run (chomp 1) ''a'' 1 = Returns None"
    by (simp add: run_chomp)
  have 1: "run (const (chomp 1) (PInt 7)) ''a'' 0 = Returns (Some (PInt 7, 1))"
    using const_replaces_result [of "chomp 1" "PInt 7" "''a''" 0] by (simp add: a b)
  have 2: "run (const (tag (chomp 1) (PStr ''t'')) (PInt 7)) ''a'' 0 =
       Returns (Some (Tagged (PStr ''t'') (PInt 7), 1))"
    using const_replaces_result [of "tag (chomp 1) (PStr ''t'')" "PInt 7" "''a''" 0] by (simp add: c d)
  have 3: "run (const (chomp 1) (PInt 7)) ''a'' 1 = Returns None"
    using const_replaces_result [of "chomp 1" "PInt 7" "''a''" 1] by (simp add: e)
  show ?thesis unfolding 1 2 3 a by simp
qed

text \<open>
  The input on which the sentence of the specification fails: \<^verbatim>\<open>chomp(1)\<close> succeeds on
  \<^verbatim>\<open>"a"\<close> at position 0, and \<^verbatim>\<open>chomp(1).const(None)\<close> fails there.
\<close>

theorem const_none_fails:
  "run (chomp 1) ''a'' 0 = Returns (Some (PStr ''a'', 1))
   \<and> run (const (chomp 1) PNone) ''a'' 0 = Returns None"
  by (simp add: py_slice_def slice_index_def const_def copy_with_def Let_def
      chomp_def Parser_init_def no_kwargs_def run_body_def)

subsection \<open>C7: the pipeline operations and the object they return\<close>

text \<open>
  C7, as the code has it.  Let \<open>self\<close> be a parser object of the store \<open>h\<close>.  None of \<^verbatim>\<open>conv\<close>,
  \<^verbatim>\<open>zipconv\<close>, \<^verbatim>\<open>const\<close>, \<^verbatim>\<open>skip\<close>, \<^verbatim>\<open>trim_ws\<close>, \<^verbatim>\<open>tag\<close> changes an object that exists: the
  store after the call begins with \<open>h\<close>, so the conversions, trim flag, tag and parse
  function of \<open>self\<close> are what they were.  The object returned has the parse function of
  \<open>self\<close>.  It is a new object for \<^verbatim>\<open>const\<close> and \<^verbatim>\<open>skip\<close> always, and for the other four when
  they change something; but \<^verbatim>\<open>conv()\<close> without functions, \<^verbatim>\<open>zipconv\<close> with no function
  other than \<^verbatim>\<open>None\<close>, \<^verbatim>\<open>trim_ws\<close> with the flag \<open>self\<close> has and \<^verbatim>\<open>tag\<close> with the tag \<open>self\<close>
  has return \<open>self\<close> itself, not a new \<^verbatim>\<open>Parser\<close>.
\<close>

theorem pipeline_returns_self_or_new:
  "self < length h \<longrightarrow>
     take (length h) (fst (conv_obj h self fns)) = h
   \<and> slot_parse_fn (returned (conv_obj h self fns)) = slot_parse_fn (h ! self)
   \<and> snd (conv_obj h self fns) = (if fns = [] then self else length h)
   \<and> take (length h) (fst (zipconv_obj h self zfns)) = h
   \<and> slot_parse_fn (returned (zipconv_obj h self zfns)) = slot_parse_fn (h ! self)
   \<and> snd (zipconv_obj h self zfns) = (if list_all Option.is_none zfns then self else length h)
   \<and> take (length h) (fst (const_obj h self v)) = h
   \<and> slot_parse_fn (returned (const_obj h self v)) = slot_parse_fn (h ! self)
   \<and> snd (const_obj h self v) = length h
   \<and> take (length h) (fst (skip_obj h self)) = h
   \<and> slot_parse_fn (returned (skip_obj h self)) = slot_parse_fn (h ! self)
   \<and> snd (skip_obj h self) = length h
   \<and> take (length h) (fst (trim_ws_obj h self enable)) = h
   \<and> slot_parse_fn (returned (trim_ws_obj h self enable)) = slot_parse_fn (h ! self)
   \<and> snd (trim_ws_obj h self enable) = (if slot_trim_ws (h ! self) = enable then self else length h)
   \<and> take (length h) (fst (tag_obj h self tg)) = h
   \<and> slot_parse_fn (returned (tag_obj h self tg)) = slot_parse_fn (h ! self)
   \<and> snd (tag_obj h self tg) = (if slot_tag (h ! self) = tg then self else length h)"
  by (simp add: conv_obj_def zipconv_obj_def const_obj_def skip_obj_def trim_ws_obj_def tag_obj_def
      copy_with_obj_def new_object_def returned_def copy_with_parse_fn)

theorem pipeline_returns_self_or_new_witness:
  "(0::nat) < length [chomp 1]
   \<and> snd (conv_obj [chomp 1] 0 []) = 0
   \<and> snd (const_obj [chomp 1] 0 (PInt 7)) = 1
   \<and> take 1 (fst (const_obj [chomp 1] 0 (PInt 7))) = [chomp 1]
   \<and> snd (trim_ws_obj [chomp 1] 0 True) = 1
   \<and> take 1 (fst (trim_ws_obj [chomp 1] 0 True)) = [chomp 1]
   \<and> slot_parse_fn (returned (trim_ws_obj [chomp 1] 0 True)) = slot_parse_fn (chomp 1)
   \<and> snd (tag_obj [chomp 1] 0 PNone) = 0"
proof -
  have a: "slot_trim_ws (chomp 1) = False" "slot_tag (chomp 1) = PNone"
    by (simp_all add: chomp_def Parser_init_def no_kwargs_def)
  have l: "(0::nat) < length [chomp 1]" by simp
  note t = pipeline_returns_self_or_new [of 0 "[chomp 1]" "[]" "[]" "PInt 7" True PNone]
  have 1: "snd (conv_obj [chomp 1] 0 []) = 0" using t l by simp
  have 2: "snd (const_obj [chomp 1] 0 (PInt 7)) = 1" using t l by simp
  have 3: "take 1 (fst (const_obj [chomp 1] 0 (PInt 7))) = [chomp 1]" using t l by simp
  have 4: "snd (trim_ws_obj [chomp 1] 0 True) = 1" using t l a by simp
  have 5: "take 1 (fst (trim_ws_obj [chomp 1] 0 True)) = [chomp 1]" using t l by simp
  have 6: "slot_parse_fn (returned (trim_ws_obj [chomp 1] 0 True)) = slot_parse_fn (chomp 1)"
    using t l by simp
  have 7: "snd (tag_obj [chomp 1] 0 PNone) = 0" using t l a by simp
  from l 1 2 3 4 5 6 7 show ?thesis by blast
qed

text \<open>
  The input on which the sentence of the specification fails: \<^verbatim>\<open>ex(",")\<close> trims
  whitespace already, so \<^verbatim>\<open>ex(",").trim_ws(True)\<close> returns the object it was called on and
  makes no object; so does \<^verbatim>\<open>ex(",").conv()\<close>.
\<close>

theorem trim_ws_returns_self:
  "snd (trim_ws_obj [ex '',''] 0 True) = 0
   \<and> fst (trim_ws_obj [ex '',''] 0 True) = [ex '','']
   \<and> snd (conv_obj [ex '',''] 0 []) = 0
   \<and> fst (conv_obj [ex '',''] 0 []) = [ex '','']"
  by (simp add: trim_ws_obj_def conv_obj_def ex_def Parser_init_def no_kwargs_def)

subsection \<open>C8: separated lists\<close>

text \<open>
  C8.  Let \<open>sl\<close> be the parser \<^verbatim>\<open>seplist(p, sep)\<close>.  It needs a first item: where \<open>p\<close> fails,
  \<open>sl\<close> fails, and \<^verbatim>\<open>parse\<close> returns \<^verbatim>\<open>None\<close>.  When \<open>sl\<close> succeeds, \<open>p\<close> has matched a first
  item, then some number \<open>n\<close> of times the separator \<open>q\<close> and \<open>p\<close> again, and the result is
  the list of what \<^verbatim>\<open>_add_result\<close> keeps of these \<open>n + 1\<close> item results, in order: no
  separator result is in it.  Indeed the separator is run as \<^verbatim>\<open>q.skip()\<close>, whose result is
  \<^verbatim>\<open>None\<close> whenever it succeeds.  And \<^verbatim>\<open>seplist(regex("[0-9]+"), ",").parse("1,2,3")\<close>
  returns the list of \<^verbatim>\<open>"1"\<close>, \<^verbatim>\<open>"2"\<close>, \<^verbatim>\<open>"3"\<close>.
\<close>

theorem seplist_items_only:
  "(seplist p sep = Inr sl \<and> run p s i = Returns None \<longrightarrow> run sl s i = Returns None)
   \<and> (seplist p sep = Inr sl \<and> run p s 0 = Returns None \<longrightarrow> parse sl s = Returns PNone)
   \<and> ((seplist p (SepParser q) = Inr sl \<or> seplist p (SepStr z) = Inr sl \<and> q = ex z)
        \<and> run sl s i = Returns (Some (res, e)) \<longrightarrow>
        (\<exists>item j n items. run p s i = Returns (Some (item, j))
           \<and> sep_items q p s n j = Some (items, e)
           \<and> res = PList (add_result [] item @ items)))
   \<and> (run (skip q) s i = Returns (Some (r, k)) \<longrightarrow> r = PNone \<and> add_result acc r = acc)
   \<and> map_sum id (\<lambda>sl. parse sl ''1,2,3'') (seplist (regex digits_patt) (SepStr '','')) =
        Inr (Returns (PList [PStr ''1'', PStr ''2'', PStr ''3'']))"
proof (intro conjI impI)
  assume "seplist p sep = Inr sl \<and> run p s i = Returns None"
  then show "run sl s i = Returns None"
    using seplist_first_item by blast
next
  assume "seplist p sep = Inr sl \<and> run p s 0 = Returns None"
  then have "run sl s 0 = Returns None"
    using seplist_first_item by blast
  then show "parse sl s = Returns PNone"
    by (simp add: parse_def)
next
  assume a: "(seplist p (SepParser q) = Inr sl \<or> seplist p (SepStr z) = Inr sl \<and> q = ex z)
        \<and> run sl s i = Returns (Some (res, e))"
  then have "sl = parser_add p (star (parser_add (skip q) p) 0 None)"
    by (auto simp: seplist_def)
  with a have "run (parser_add p (star (parser_add (skip q) p) 0 None)) s i = Returns (Some (res, e))"
    by simp
  then show "\<exists>item j n items. run p s i = Returns (Some (item, j))
           \<and> sep_items q p s n j = Some (items, e)
           \<and> res = PList (add_result [] item @ items)"
    by (rule seplist_result)
next
  assume a: "run (skip q) s i = Returns (Some (r, k))"
  show "r = PNone" using run_skip_result [OF a] .
  then show "add_result acc r = acc" by (simp add: add_result_def)
next
  show "map_sum id (\<lambda>sl. parse sl ''1,2,3'') (seplist (regex digits_patt) (SepStr '','')) =
        Inr (Returns (PList [PStr ''1'', PStr ''2'', PStr ''3'']))"
    by (rule seplist_digits_example)
qed

theorem seplist_items_only_witness:
  "seplist (regex digits_patt) (SepStr '','') =
       Inr (parser_add (regex digits_patt) (star (parser_add (skip (ex '','')) (regex digits_patt)) 0 None))
   \<and> run (regex digits_patt) '''' 0 = Returns None
   \<and> run (parser_add (regex digits_patt) (star (parser_add (skip (ex '','')) (regex digits_patt)) 0 None)) '''' 0
       = Returns None
   \<and> parse (parser_add (regex digits_patt) (star (parser_add (skip (ex '','')) (regex digits_patt)) 0 None)) ''''
       = Returns PNone
   \<and> run (parser_add (regex digits_patt) (star (parser_add (skip (ex '','')) (regex digits_patt)) 0 None)) ''1,2'' 0
       = Returns (Some (PList [PStr ''1'', PStr ''2''], 3))
   \<and> (\<exists>item j n items. run (regex digits_patt) ''1,2'' 0 = Returns (Some (item, j))
         \<and> sep_items (ex '','') (regex digits_patt) ''1,2'' n j = Some (items, 3)
         \<and> PList [PStr ''1'', PStr ''2''] = PList (add_result [] item @ items))
   \<and> run (skip (ex '','')) '',1'' 0 = Returns (Some (PNone, 1))"
proof -
  let ?sl = "parser_add (regex digits_patt) (star (parser_add (skip (ex '','')) (regex digits_patt)) 0 None)"
  have a: "seplist (regex digits_patt) (SepStr '','') = Inr ?sl"
    by (simp add: seplist_def)
  have b: "run (regex digits_patt) '''' 0 = Returns None"
    by code_simp
  have c: "run (skip (ex '','')) '',1'' 0 = Returns (Some (PNone, 1))"
    by code_simp
  have d: "run ?sl ''1,2'' 0 = Returns (Some (PList [PStr ''1'', PStr ''2''], 3))"
    by code_simp
  note t = seplist_items_only [of "regex digits_patt" "SepStr '',''" ?sl "''''" 0]
  have 1: "run ?sl '''' 0 = Returns None" using t a b by blast
  have 2: "parse ?sl '''' = Returns PNone" using t a b by blast
  note u = seplist_items_only [of "regex digits_patt" "SepStr '',''" ?sl "''1,2''" 0 "ex '',''" "'',''"
      "PList [PStr ''1'', PStr ''2'']" 3]
  have 3: "\<exists>item j n items. run (regex digits_patt) ''1,2'' 0 = Returns (Some (item, j))
         \<and> sep_items (ex '','') (regex digits_patt) ''1,2'' n j = Some (items, 3)
         \<and> PList [PStr ''1'', PStr ''2''] = PList (add_result [] item @ items)"
    using u a d by blast
  from a b c d 1 2 3 show ?thesis by blast
qed

subsection \<open>C9: a repetition that makes no progress\<close>

text \<open>
  C9.  When \<open>p\<close> succeeds at position \<open>i\<close> without advancing (its end position is \<open>i\<close>),
  \<^verbatim>\<open>star(p)\<close> with the default \<^verbatim>\<open>at_most=None\<close> does not return from \<^verbatim>\<open>run(s, i)\<close>, whatever
  \<^verbatim>\<open>at_least\<close> is, while \<^verbatim>\<open>star(p, at_most=m)\<close> returns for every bound \<open>m\<close>.  More
  generally \<^verbatim>\<open>star(p, at_most=m).run\<close> returns at every position when the runs of \<open>p\<close> on
  the string do.
\<close>

theorem star_unbounded_diverges:
  "(run p s i = Returns (Some (r, i)) \<longrightarrow>
      run (star p k None) s i = Diverges \<and> (\<forall>m. run (star p k (Some m)) s i \<noteq> Diverges))
   \<and> ((\<forall>j. run p s j \<noteq> Diverges) \<longrightarrow> run (star p k (Some m)) s i \<noteq> Diverges)"
proof (intro conjI impI allI)
  assume a: "run p s i = Returns (Some (r, i))"
  show "run (star p k None) s i = Diverges"
    by (simp add: run_star star_parse_fn_def star_loop_stuck [OF a])
  fix m
  show "run (star p k (Some m)) s i \<noteq> Diverges"
    using star_loop_bounded_fixed [OF a, of m 0 "[]"]
    by (auto simp: run_star star_parse_fn_def split: option.splits sum.splits prod.splits)
next
  assume "\<forall>j. run p s j \<noteq> Diverges"
  from star_loop_bounded_returns [OF this, of m 0 "[]" i]
  show "run (star p k (Some m)) s i \<noteq> Diverges"
    by (auto simp: run_star star_parse_fn_def split: option.splits sum.splits prod.splits)
qed

theorem star_unbounded_diverges_witness:
  "run (chomp 0) '''' 0 = Returns (Some (PStr '''', 0))
   \<and> run (star (chomp 0) 0 None) '''' 0 = Diverges
   \<and> run (star (chomp 0) 0 (Some 3)) '''' 0 \<noteq> Diverges
   \<and> (\<forall>j. run (chomp 1) ''ab'' j \<noteq> Diverges)
   \<and> run (star (chomp 1) 0 (Some 1)) ''ab'' 0 \<noteq> Diverges"
proof -
  have a: "run (chomp 0) '''' 0 = Returns (Some (PStr '''', 0))"
    by (simp add: run_chomp py_slice_def slice_index_def)
  have b: "\<forall>j. run (chomp 1) ''ab'' j \<noteq> Diverges"
    by (simp add: run_chomp)
  have c: "run (star (chomp 0) 0 None) '''' 0 = Diverges
           \<and> (\<forall>m. run (star (chomp 0) 0 (Some m)) '''' 0 \<noteq> Diverges)"
    using star_unbounded_diverges [of "chomp 0" "''''" 0 "PStr ''''" 0 3] a by blast
  have d: "run (star (chomp 1) 0 (Some 1)) ''ab'' 0 \<noteq> Diverges"
    using star_unbounded_diverges [of "chomp 1" "''ab''" 0 "PStr ''''" 0 1] b by blast
  from a b c d show ?thesis by blast
qed

subsection \<open>C10: named groups of a regular expression\<close>

text \<open>
  C10.  When the pattern matches and the match has at least one named group,
  \<^verbatim>\<open>regex(pattern).run\<close> returns as its result the dict \<^verbatim>\<open>match.groupdict()\<close> and nothing
  else, at the end of the match (after trailing whitespace).  The dict holds exactly the
  named groups with what they captured: a group without a name is not in it, however
  many groups the pattern has.
\<close>

theorem regex_named_groups:
  "patt s (ws_end s i) = Some m \<and> (\<exists>name v. (Some name, v) \<in> set (m_captures m)) \<longrightarrow>
     run (regex patt) s i = Returns (Some (PDict (groupdict m), ws_end s (m_end m)))
     \<and> set (groupdict m) = {(name, v). (Some name, v) \<in> set (m_captures m)}"
proof (intro impI)
  assume a: "patt s (ws_end s i) = Some m \<and> (\<exists>name v. (Some name, v) \<in> set (m_captures m))"
  then have ne: "groupdict m \<noteq> []"
    using groupdict_of_set [of "m_captures m"] by (auto simp: groupdict_def)
  have "run (regex patt) s i = Returns (Some (PDict (groupdict m), ws_end s (m_end m)))"
    using a ne by (simp add: regex_def Parser_init_def no_kwargs_def run_body_def regex_parse_fn_def)
  then show "run (regex patt) s i = Returns (Some (PDict (groupdict m), ws_end s (m_end m)))
     \<and> set (groupdict m) = {(name, v). (Some name, v) \<in> set (m_captures m)}"
    by (simp add: groupdict_def groupdict_of_set)
qed

theorem regex_named_groups_witness:
  "run (regex (\<lambda>s pos. Some \<lparr>m_captures = [(Some ''k'', PStr ''a''), (None, PStr ''b'')],
                               m_group0 = ''ab'', m_end = 2\<rparr>)) ''ab'' 0
     = Returns (Some (PDict [(''k'', PStr ''a'')], 2))"
proof -
  let ?m = "\<lparr>m_captures = [(Some ''k'', PStr ''a''), (None, PStr ''b'')], m_group0 = ''ab'', m_end = 2\<rparr>"
  have a: "(\<lambda>s pos. Some ?m) ''ab'' (ws_end ''ab'' 0) = Some ?m
           \<and> (\<exists>name v. (Some name, v) \<in> set (m_captures ?m))"
    by auto
  have b: "groupdict ?m = [(''k'', PStr ''a'')]"
    by (simp add: groupdict_def)
  have c: "ws_end ''ab'' (m_end ?m) = 2"
    by (simp add: ws_end_def clamp_pos_def)
  from regex_named_groups [of "\<lambda>s pos. Some ?m" "''ab''" 0 ?m] a
  have "run (regex (\<lambda>s pos. Some ?m)) ''ab'' 0 =
      Returns (Some (PDict (groupdict ?m), ws_end ''ab'' (m_end ?m)))"
    by blast
  then show ?thesis unfolding b c .
qed

end
